theory Spec2Isabelle
  imports Main "HOL-Library.Word"
begin

section \<open>The two-level array of \<^verbatim>\<open>src/containers/two_level_array.hpp\<close>\<close>

text \<open>
  The header defines two class templates over the same layout: an outer table of
  \<^verbatim>\<open>num_chunks\<close> chunk pointers, each chunk holding \<^verbatim>\<open>chunk_size\<close> values.
  \<^verbatim>\<open>two_level_array_t\<close> counts the non-zero values of a chunk and deletes the chunk when
  the count returns to zero; \<^verbatim>\<open>two_level_nevershrink_array_t\<close> hands out references and
  never deletes a chunk.

  \<^verbatim>\<open>size_t\<close> is a 64-bit unsigned integer, so \<open>+\<close>, \<open>-\<close>, \<open>div\<close> and \<open>mod\<close> below are
  those of the machine.

  \<^verbatim>\<open>get\<close>, \<^verbatim>\<open>set\<close> and \<^verbatim>\<open>operator[]\<close> take a \<^verbatim>\<open>size_t key\<close>, but \<^verbatim>\<open>chunk_for_key\<close> and
  \<^verbatim>\<open>index_for_key\<close> take a \<^verbatim>\<open>key_t key\<close>. Neither the header nor the classes declare
  \<^verbatim>\<open>key_t\<close>, so the name is the global \<^verbatim>\<open>key_t\<close> of \<^verbatim>\<open><sys/types.h>\<close>, an \<^verbatim>\<open>int\<close>:
  a 32-bit signed integer. The call converts the \<^verbatim>\<open>size_t\<close> argument to it, which keeps
  the low 32 bits, and \<^verbatim>\<open>key / chunk_size\<close> and \<^verbatim>\<open>key % chunk_size\<close> convert the
  \<^verbatim>\<open>int\<close> back to \<^verbatim>\<open>size_t\<close>, which extends its sign.
\<close>

type_synonym size_t = "64 word"

type_synonym key_t = "32 word"

text \<open>
  The conversion of a \<^verbatim>\<open>size_t\<close> argument to a \<^verbatim>\<open>key_t\<close> parameter: the value modulo
  \<open>2\<^sup>3\<^sup>2\<close>, read as a signed integer.
\<close>

definition to_key_t :: "size_t \<Rightarrow> key_t" where
  "to_key_t key = ucast key"

text \<open>\<^verbatim>\<open>INT_MAX\<close> of \<^verbatim>\<open><limits.h>\<close>: the largest key that the conversion leaves as it is.\<close>

definition INT_MAX :: size_t where
  "INT_MAX = 2147483647"

subsection \<open>Template arguments\<close>

text \<open>
  \<^verbatim>\<open>template <class value_t, size_t max_size, size_t chunk_size>\<close>. Of \<^verbatim>\<open>value_t\<close> the
  code uses its default constructor \<^verbatim>\<open>value_t()\<close> and its conversion to \<^verbatim>\<open>bool\<close>.
\<close>

record 'v template_args =
  max_size :: size_t
  chunk_size :: size_t
  value_default :: 'v
  to_bool :: "'v \<Rightarrow> bool"

text \<open>
  The assumptions the header's comment makes about \<^verbatim>\<open>value_t\<close>:
  \<^verbatim>\<open>bool(value_t()) == false\<close> and \<^verbatim>\<open>bool(any other instance of value_t) == true\<close>.
\<close>

definition value_contract :: "'v template_args \<Rightarrow> bool" where
  "value_contract p \<longleftrightarrow>
     \<not> to_bool p (value_default p) \<and> (\<forall>v. v \<noteq> value_default p \<longrightarrow> to_bool p v)"

text \<open>
  An instantiation that compiles and owns a table: \<^verbatim>\<open>chunk_size\<close> is not zero (it is a
  divisor in a constant expression and an array bound), and \<^verbatim>\<open>max_size / chunk_size + 1\<close>
  does not wrap around to zero.
\<close>

definition args_ok :: "'v template_args \<Rightarrow> bool" where
  "args_ok p \<longleftrightarrow> chunk_size p \<noteq> 0 \<and> max_size p div chunk_size p + 1 \<noteq> 0"

subsection \<open>The assertion\<close>

datatype error = Rassert_failed size_t size_t

text \<open>
  Modelled from the spec: the macro \<^verbatim>\<open>rassert\<close> comes from \<^verbatim>\<open>errors.hpp\<close>, which is not
  among the sources. The spec describes it as a fatal assertion that terminates execution
  with the offending index and the bound as diagnostic context.
\<close>

definition rassert :: "bool \<Rightarrow> size_t \<Rightarrow> size_t \<Rightarrow> error + unit" where
  "rassert cond x y = (if cond then Inr () else Inl (Rassert_failed x y))"

subsection \<open>\<^verbatim>\<open>two_level_array_t\<close>\<close>

definition num_chunks :: "'v template_args \<Rightarrow> size_t" where
  "num_chunks p = max_size p div chunk_size p + 1"

record 'v chunk_t =
  count :: size_t
  values' :: "'v list"

text \<open>The constructor \<^verbatim>\<open>chunk_t() : count(0), values()\<close>.\<close>

definition chunk_t_new :: "'v template_args \<Rightarrow> 'v chunk_t" where
  "chunk_t_new p = \<lparr>count = 0, values' = replicate (unat (chunk_size p)) (value_default p)\<rparr>"

text \<open>
  \<^verbatim>\<open>chunk_t **chunks\<close>: a table of owning pointers, each chunk reachable from one entry
  only. A null pointer is \<open>None\<close>. The traffic with the free store is part of the state:
  \<open>allocations\<close> counts the executions of \<^verbatim>\<open>new chunk_t\<close> and \<open>deallocations\<close> those of
  \<^verbatim>\<open>delete chunk\<close>.
\<close>

record 'v two_level_array_t =
  chunks :: "'v chunk_t option list"
  allocations :: nat
  deallocations :: nat

definition chunk_for_key :: "'v template_args \<Rightarrow> key_t \<Rightarrow> error + size_t" where
  "chunk_for_key p key =
     (let chunk_id = scast key div chunk_size p
      in case rassert (chunk_id < num_chunks p) chunk_id (num_chunks p) of
           Inl e \<Rightarrow> Inl e
         | Inr _ \<Rightarrow> Inr chunk_id)"

definition index_for_key :: "'v template_args \<Rightarrow> key_t \<Rightarrow> size_t" where
  "index_for_key p key = scast key mod chunk_size p"

text \<open>The constructor: a table of \<^verbatim>\<open>num_chunks\<close> null pointers.\<close>

definition two_level_array_t_new :: "'v template_args \<Rightarrow> 'v two_level_array_t" where
  "two_level_array_t_new p =
     \<lparr>chunks = replicate (unat (num_chunks p)) None, allocations = 0, deallocations = 0\<rparr>"

text \<open>
  Every member function takes the object and returns it with its result, also \<^verbatim>\<open>get\<close>,
  whose \<^verbatim>\<open>const\<close> does not reach through the pointers of the table.
\<close>

definition get ::
  "'v template_args \<Rightarrow> 'v two_level_array_t \<Rightarrow> size_t \<Rightarrow> error + 'v \<times> 'v two_level_array_t"
where
  "get p a key =
     (case chunk_for_key p (to_key_t key) of
        Inl e \<Rightarrow> Inl e
      | Inr chunk_id \<Rightarrow>
          (case chunks a ! unat chunk_id of
             Some c \<Rightarrow> Inr (values' c ! unat (index_for_key p (to_key_t key)), a)
           | None \<Rightarrow> Inr (value_default p, a)))"

text \<open>
  \<^verbatim>\<open>set\<close>. \<open>a0\<close> is the object after \<^verbatim>\<open>if (!chunk) chunk = chunks[chunk_id] = new chunk_t\<close>,
  \<open>c0\<close> to \<open>c3\<close> are the chunk before and after each of the three statements on it.
\<close>

definition set_value ::
  "'v template_args \<Rightarrow> 'v two_level_array_t \<Rightarrow> size_t \<Rightarrow> 'v \<Rightarrow> error + 'v two_level_array_t"
where
  "set_value p a key v =
     (case chunk_for_key p (to_key_t key) of
        Inl e \<Rightarrow> Inl e
      | Inr chunk_id \<Rightarrow>
          (let chunk = chunks a ! unat chunk_id
           in if \<not> to_bool p v \<and> chunk = None then Inr a
              else
                let a0 = (case chunk of
                            None \<Rightarrow> a\<lparr>chunks := (chunks a)[unat chunk_id := Some (chunk_t_new p)],
                                      allocations := allocations a + 1\<rparr>
                          | Some c \<Rightarrow> a);
                    c0 = (case chunk of None \<Rightarrow> chunk_t_new p | Some c \<Rightarrow> c);
                    i = unat (index_for_key p (to_key_t key));
                    c1 = (if to_bool p (values' c0 ! i) then c0\<lparr>count := count c0 - 1\<rparr> else c0);
                    c2 = c1\<lparr>values' := (values' c1)[i := v]\<rparr>;
                    c3 = (if to_bool p v then c2\<lparr>count := count c2 + 1\<rparr> else c2)
                in if count c3 = 0
                   then Inr (a0\<lparr>chunks := (chunks a0)[unat chunk_id := None],
                               deallocations := deallocations a0 + 1\<rparr>)
                   else Inr (a0\<lparr>chunks := (chunks a0)[unat chunk_id := Some c3]\<rparr>)))"

text \<open>A sequence of \<^verbatim>\<open>set\<close> calls; the first failed assertion ends the run.\<close>

fun run_sets ::
  "'v template_args \<Rightarrow> 'v two_level_array_t \<Rightarrow> (size_t \<times> 'v) list \<Rightarrow> error + 'v two_level_array_t"
where
  "run_sets p a [] = Inr a"
| "run_sets p a ((key, v) # ops) =
     (case set_value p a key v of Inl e \<Rightarrow> Inl e | Inr a' \<Rightarrow> run_sets p a' ops)"

text \<open>
  What the table and the chunks satisfy between calls: the table has \<^verbatim>\<open>num_chunks\<close>
  entries, every chunk has \<^verbatim>\<open>chunk_size\<close> values, its \<^verbatim>\<open>count\<close> is the number of its
  values that convert to \<^verbatim>\<open>true\<close>, and that number is not zero.
\<close>

definition chunk_ok :: "'v template_args \<Rightarrow> 'v chunk_t \<Rightarrow> bool" where
  "chunk_ok p c \<longleftrightarrow>
     length (values' c) = unat (chunk_size p) \<and>
     unat (count c) = length (filter (to_bool p) (values' c)) \<and>
     count c \<noteq> 0"

definition array_ok :: "'v template_args \<Rightarrow> 'v two_level_array_t \<Rightarrow> bool" where
  "array_ok p a \<longleftrightarrow>
     length (chunks a) = unat (num_chunks p) \<and>
     list_all (\<lambda>h. case h of None \<Rightarrow> True | Some c \<Rightarrow> chunk_ok p c) (chunks a)"

text \<open>
  The values that entry \<open>n\<close> of the table denotes: those of its chunk, or \<^verbatim>\<open>chunk_size\<close>
  times \<^verbatim>\<open>value_t()\<close> where there is no chunk.
\<close>

definition chunk_contents :: "'v template_args \<Rightarrow> 'v two_level_array_t \<Rightarrow> nat \<Rightarrow> 'v list" where
  "chunk_contents p a n =
     (case chunks a ! n of
        None \<Rightarrow> replicate (unat (chunk_size p)) (value_default p)
      | Some c \<Rightarrow> values' c)"

text \<open>
  The table entry that stands for the values \<open>xs\<close>: no chunk when none of them converts
  to \<^verbatim>\<open>true\<close>, else a chunk that counts those that do.
\<close>

definition set_entry :: "'v template_args \<Rightarrow> 'v list \<Rightarrow> 'v chunk_t option" where
  "set_entry p xs =
     (if filter (to_bool p) xs = [] then None
      else Some \<lparr>count = of_nat (length (filter (to_bool p) xs)), values' = xs\<rparr>)"

text \<open>
  The spec's table size, \<open>ceil(max_size / chunk_size)\<close>, on the unsigned values of the
  two template arguments.
\<close>

definition spec_num_chunks :: "'v template_args \<Rightarrow> nat" where
  "spec_num_chunks p =
     (unat (max_size p) + unat (chunk_size p) - 1) div unat (chunk_size p)"

subsection \<open>\<^verbatim>\<open>two_level_nevershrink_array_t\<close>\<close>

definition nevershrink_num_chunks :: "'v template_args \<Rightarrow> size_t" where
  "nevershrink_num_chunks p = max_size p div chunk_size p + 1"

record 'v nevershrink_chunk_t =
  nevershrink_values :: "'v list"

definition nevershrink_chunk_t_new :: "'v template_args \<Rightarrow> 'v nevershrink_chunk_t" where
  "nevershrink_chunk_t_new p =
     \<lparr>nevershrink_values = replicate (unat (chunk_size p)) (value_default p)\<rparr>"

text \<open>
  \<^verbatim>\<open>operator[]\<close> returns a \<^verbatim>\<open>value_t &\<close> into a chunk, which the caller keeps and writes
  through. So the chunks of this class live in an explicit store: \<open>chunk_store\<close> holds
  every chunk made by \<^verbatim>\<open>new chunk_t\<close>, the address of a chunk is its position there, and
  the table \<^verbatim>\<open>chunk_t **chunks\<close> holds addresses. The class has no \<^verbatim>\<open>delete\<close> outside
  its destructor, so the store only grows.
\<close>

record 'v two_level_nevershrink_array_t =
  chunk_store :: "'v nevershrink_chunk_t list"
  nevershrink_chunks :: "nat option list"

text \<open>A \<^verbatim>\<open>value_t &\<close>: the address of a chunk and a position in its \<^verbatim>\<open>values\<close>.\<close>

type_synonym value_ref = "nat \<times> nat"

definition nevershrink_chunk_for_key :: "'v template_args \<Rightarrow> key_t \<Rightarrow> error + size_t" where
  "nevershrink_chunk_for_key p key =
     (let chunk_id = scast key div chunk_size p
      in case rassert (chunk_id < nevershrink_num_chunks p) chunk_id (nevershrink_num_chunks p) of
           Inl e \<Rightarrow> Inl e
         | Inr _ \<Rightarrow> Inr chunk_id)"

definition nevershrink_index_for_key :: "'v template_args \<Rightarrow> key_t \<Rightarrow> size_t" where
  "nevershrink_index_for_key p key = scast key mod chunk_size p"

definition two_level_nevershrink_array_t_new ::
  "'v template_args \<Rightarrow> 'v two_level_nevershrink_array_t"
where
  "two_level_nevershrink_array_t_new p =
     \<lparr>chunk_store = [], nevershrink_chunks = replicate (unat (nevershrink_num_chunks p)) None\<rparr>"

text \<open>\<^verbatim>\<open>operator[]\<close>.\<close>

definition subscript ::
  "'v template_args \<Rightarrow> 'v two_level_nevershrink_array_t \<Rightarrow> size_t \<Rightarrow>
     error + value_ref \<times> 'v two_level_nevershrink_array_t"
where
  "subscript p a key =
     (case nevershrink_chunk_for_key p (to_key_t key) of
        Inl e \<Rightarrow> Inl e
      | Inr chunk_id \<Rightarrow>
          (case nevershrink_chunks a ! unat chunk_id of
             Some addr \<Rightarrow> Inr ((addr, unat (nevershrink_index_for_key p (to_key_t key))), a)
           | None \<Rightarrow>
               (let addr = length (chunk_store a)
                in Inr ((addr, unat (nevershrink_index_for_key p (to_key_t key))),
                        a\<lparr>chunk_store := chunk_store a @ [nevershrink_chunk_t_new p],
                          nevershrink_chunks := (nevershrink_chunks a)[unat chunk_id := Some addr]\<rparr>))))"

text \<open>
  Reading and writing through a reference. A reference that points at no live slot has
  no defined read or write: \<open>None\<close>.
\<close>

definition ref_valid :: "'v two_level_nevershrink_array_t \<Rightarrow> value_ref \<Rightarrow> bool" where
  "ref_valid a r \<longleftrightarrow>
     fst r < length (chunk_store a) \<and> snd r < length (nevershrink_values (chunk_store a ! fst r))"

definition load :: "'v two_level_nevershrink_array_t \<Rightarrow> value_ref \<Rightarrow> 'v option" where
  "load a r =
     (if ref_valid a r then Some (nevershrink_values (chunk_store a ! fst r) ! snd r) else None)"

definition store ::
  "'v two_level_nevershrink_array_t \<Rightarrow> value_ref \<Rightarrow> 'v \<Rightarrow> 'v two_level_nevershrink_array_t option"
where
  "store a r v =
     (if ref_valid a r
      then Some (a\<lparr>chunk_store := (chunk_store a)
             [fst r := (chunk_store a ! fst r)
                \<lparr>nevershrink_values := (nevershrink_values (chunk_store a ! fst r))[snd r := v]\<rparr>]\<rparr>)
      else None)"

text \<open>
  What a caller does with the container: it subscripts, and it writes through a reference
  it holds. A run ends with \<open>None\<close> at a failed assertion or at a write through a
  reference that is not valid.
\<close>

datatype 'v nevershrink_op = Subscript size_t | Store value_ref 'v

fun run_ops ::
  "'v template_args \<Rightarrow> 'v two_level_nevershrink_array_t \<Rightarrow> 'v nevershrink_op list \<Rightarrow>
     'v two_level_nevershrink_array_t option"
where
  "run_ops p a [] = Some a"
| "run_ops p a (Subscript key # ops) =
     (case subscript p a key of Inl e \<Rightarrow> None | Inr (r, a') \<Rightarrow> run_ops p a' ops)"
| "run_ops p a (Store r v # ops) =
     (case store a r v of None \<Rightarrow> None | Some a' \<Rightarrow> run_ops p a' ops)"

definition nevershrink_ok ::
  "'v template_args \<Rightarrow> 'v two_level_nevershrink_array_t \<Rightarrow> bool"
where
  "nevershrink_ok p a \<longleftrightarrow>
     length (nevershrink_chunks a) = unat (nevershrink_num_chunks p) \<and>
     list_all (\<lambda>c. length (nevershrink_values c) = unat (chunk_size p)) (chunk_store a) \<and>
     list_all (\<lambda>h. case h of None \<Rightarrow> True | Some addr \<Rightarrow> addr < length (chunk_store a))
       (nevershrink_chunks a)"

subsection \<open>The spec's example instantiation\<close>

text \<open>
  \<^verbatim>\<open>chunk_size = 4\<close>, \<^verbatim>\<open>max_size = 16\<close>, with an unsigned integer as \<^verbatim>\<open>value_t\<close>:
  \<^verbatim>\<open>value_t()\<close> is \<open>0\<close> and the conversion to \<^verbatim>\<open>bool\<close> is \<open>\<noteq> 0\<close>.
\<close>

definition example_args :: "nat template_args" where
  "example_args = \<lparr>max_size = 16, chunk_size = 4, value_default = 0, to_bool = (\<lambda>v. v \<noteq> 0)\<rparr>"

text \<open>The object after \<^verbatim>\<open>set(5, 1)\<close>, and after \<^verbatim>\<open>set(5, 1); set(6, 2)\<close>.\<close>

definition example_array :: "nat two_level_array_t" where
  "example_array =
     \<lparr>chunks = [None, Some \<lparr>count = 1, values' = [0, 1, 0, 0]\<rparr>, None, None, None],
      allocations = 1, deallocations = 0\<rparr>"

definition example_array2 :: "nat two_level_array_t" where
  "example_array2 =
     \<lparr>chunks = [None, Some \<lparr>count = 2, values' = [0, 1, 2, 0]\<rparr>, None, None, None],
      allocations = 1, deallocations = 0\<rparr>"

text \<open>
  A never-shrink object after \<^verbatim>\<open>value_t &r = container[9]; r = 3;\<close>.
\<close>

definition example_nevershrink :: "nat two_level_nevershrink_array_t" where
  "example_nevershrink =
     \<lparr>chunk_store = [\<lparr>nevershrink_values = [0, 3, 0, 0]\<rparr>],
      nevershrink_chunks = [None, None, Some 0, None, None]\<rparr>"

text \<open>
  Two instantiations with more than \<open>2\<^sup>3\<^sup>1\<close> keys: \<^verbatim>\<open>max_size = 1 << 33\<close> with
  \<^verbatim>\<open>chunk_size = 1 << 30\<close>, a table of nine entries, and \<^verbatim>\<open>max_size = (1 << 32) + 16\<close>
  with \<^verbatim>\<open>chunk_size = 1 << 16\<close>.
\<close>

definition large_args :: "nat template_args" where
  "large_args =
     \<lparr>max_size = 8589934592, chunk_size = 1073741824, value_default = 0,
      to_bool = (\<lambda>v. v \<noteq> 0)\<rparr>"

definition wide_args :: "nat template_args" where
  "wide_args =
     \<lparr>max_size = 4294967312, chunk_size = 65536, value_default = 0, to_bool = (\<lambda>v. v \<noteq> 0)\<rparr>"

section \<open>Arithmetic of keys and counters\<close>

text \<open>A key up to \<^verbatim>\<open>INT_MAX\<close> comes back from \<^verbatim>\<open>key_t\<close> as it was.\<close>

lemma scast_to_key_t:
  assumes "key \<le> INT_MAX"
  shows "(scast (to_key_t key) :: size_t) = key"
proof -
  have "uint key \<le> uint (2147483647 :: size_t)"
    using assms by (simp only: word_le_def INT_MAX_def)
  then have u: "uint key < 2147483648" by simp
  have "sint (ucast key :: 32 word) = signed_take_bit 31 (uint key)"
    by (simp add: signed_ucast_eq)
  also have "\<dots> = uint key"
  proof (rule signed_take_bit_int_eq_self)
    have "(0 :: int) \<le> 2 ^ 31" by simp
    then show "- (2 ^ 31) \<le> uint key" using uint_nonnegative [of key] by linarith
    show "uint key < 2 ^ 31" using u by simp
  qed
  finally show ?thesis by (simp add: scast_eq to_key_t_def)
qed

lemma scast_key_t_inject:
  fixes k k' :: key_t
  assumes "(scast k :: size_t) = scast k'"
  shows "k = k'"
proof -
  have "(scast (scast k :: size_t) :: key_t) = scast (scast k' :: size_t)"
    using assms by simp
  then show ?thesis by (simp add: scast_up_scast_id is_up)
qed

lemma to_key_t_inject:
  assumes "key \<le> INT_MAX" and "key' \<le> INT_MAX" and "to_key_t key = to_key_t key'"
  shows "key = key'"
proof -
  have "key = scast (to_key_t key)" using assms(1) by (rule scast_to_key_t [symmetric])
  also have "\<dots> = scast (to_key_t key')" by (simp only: assms(3))
  also have "\<dots> = key'" using assms(2) by (rule scast_to_key_t)
  finally show ?thesis .
qed

lemma unat_num_chunks:
  "args_ok p \<Longrightarrow> unat (num_chunks p) = unat (max_size p) div unat (chunk_size p) + 1"
  by (simp add: args_ok_def num_chunks_def unatSuc add.commute unat_div)

lemma chunk_for_key_eq:
  "chunk_for_key p k =
     (if scast k div chunk_size p < num_chunks p then Inr (scast k div chunk_size p)
      else Inl (Rassert_failed (scast k div chunk_size p) (num_chunks p)))"
  by (simp add: chunk_for_key_def rassert_def Let_def)

lemma index_for_key_less:
  "chunk_size p \<noteq> 0 \<Longrightarrow> unat (index_for_key p k) < unat (chunk_size p)"
  by (simp add: index_for_key_def unat_mod unat_gt_0)

lemma chunk_for_key_less:
  "chunk_for_key p k = Inr cid \<Longrightarrow>
     cid = scast k div chunk_size p \<and> unat cid < unat (num_chunks p)"
  by (auto simp: chunk_for_key_eq word_less_nat_alt split: if_splits)

lemma chunk_for_key_in_capacity:
  assumes "args_ok p" and "key \<le> max_size p" and "key \<le> INT_MAX"
  shows "chunk_for_key p (to_key_t key) = Inr (key div chunk_size p)"
proof -
  have "unat key div unat (chunk_size p) \<le> unat (max_size p) div unat (chunk_size p)"
    using assms(2) by (simp add: word_le_nat_alt div_le_mono)
  then have "key div chunk_size p < num_chunks p"
    using assms(1) by (simp add: word_less_nat_alt unat_num_chunks unat_div)
  then show ?thesis by (simp add: chunk_for_key_eq scast_to_key_t [OF assms(3)])
qed

lemma index_for_key_in_range:
  "key \<le> INT_MAX \<Longrightarrow> index_for_key p (to_key_t key) = key mod chunk_size p"
  by (simp add: index_for_key_def scast_to_key_t)

lemma word_div_mod_inject:
  fixes x y c :: size_t
  shows "x div c = y div c \<Longrightarrow> x mod c = y mod c \<Longrightarrow> x = y"
  by (metis div_mult_mod_eq)

lemma length_filter_update:
  "i < length xs \<Longrightarrow>
     length (filter P (xs[i := v])) + (if P (xs ! i) then 1 else 0) =
     length (filter P xs) + (if P v then 1 else 0)"
proof (induction xs arbitrary: i)
  case Nil
  then show ?case by simp
next
  case (Cons x xs)
  then show ?case by (cases i) auto
qed

text \<open>
  The two counter updates of \<^verbatim>\<open>set\<close>, \<^verbatim>\<open>--chunk->count\<close> and \<^verbatim>\<open>++chunk->count\<close>, on a
  counter that is right before the call.
\<close>

lemma count_update:
  fixes c :: size_t
  assumes c: "unat c = length (filter P xs)" and i: "i < length xs"
  shows "(if P v then (if P (xs ! i) then c - 1 else c) + 1 else (if P (xs ! i) then c - 1 else c))
           = of_nat (length (filter P (xs[i := v])))"
proof -
  let ?m = "length (filter P (xs[i := v]))"
  have eq: "?m + (if P (xs ! i) then 1 else 0) = unat c + (if P v then 1 else 0)"
    using length_filter_update [OF i, of P v] c by simp
  have c': "c = of_nat (unat c)" by simp
  show ?thesis
  proof (cases "P (xs ! i)")
    case True
    then have "unat c = ?m + 1 - (if P v then 1 else 0)" using eq by (simp split: if_splits)
    then have "c = of_nat (?m + 1 - (if P v then 1 else 0))" using c' by simp
    then show ?thesis using True by (simp split: if_splits)
  next
    case False
    then have "?m = unat c + (if P v then 1 else 0)" using eq by simp
    then show ?thesis using False by (simp split: if_splits)
  qed
qed

lemma filter_replicate_default:
  "\<not> P x \<Longrightarrow> filter P ((replicate n x)[i := v]) = (if P v \<and> i < n then [v] else [])"
proof (induction n arbitrary: i)
  case 0
  then show ?case by simp
next
  case (Suc n)
  then show ?case by (cases i) auto
qed

lemma of_nat_length_eq_0:
  fixes xs :: "'a list"
  assumes "length xs < 2 ^ 64"
  shows "(of_nat (length (filter P xs)) :: size_t) = 0 \<longleftrightarrow> filter P xs = []"
proof -
  have "length (filter P xs) < 2 ^ 64"
    using assms length_filter_le [of P xs] by linarith
  then have "unat (of_nat (length (filter P xs)) :: size_t) = length (filter P xs)"
    by (simp add: unat_of_nat)
  then show ?thesis
    by (metis length_0_conv unat_eq_zero)
qed

lemma all_default:
  assumes "value_contract p" and "filter (to_bool p) xs = []"
  shows "xs = replicate (length xs) (value_default p)"
proof -
  have "\<forall>x\<in>set xs. x = value_default p"
    using assms by (auto simp: value_contract_def filter_empty_conv)
  then show ?thesis by (simp add: replicate_length_same)
qed

lemma all_default_but_one:
  "i < length xs \<Longrightarrow>
     (\<forall>x\<in>set (xs[i := d]). x = d) \<longleftrightarrow> (\<forall>j<length xs. j \<noteq> i \<longrightarrow> xs ! j = d)"
  by (auto simp: all_set_conv_all_nth nth_list_update)

text \<open>Ceiling and floor of a quotient of naturals.\<close>

lemma ceil_div_least:
  fixes m c n :: nat
  assumes "0 < c"
  shows "(m + c - 1) div c \<le> n \<longleftrightarrow> m \<le> n * c"
proof -
  have "(m + c - 1) div c \<le> n \<longleftrightarrow> (m + c - 1) div c < Suc n" by linarith
  also have "\<dots> \<longleftrightarrow> m + c - 1 < Suc n * c"
    using assms by (simp only: div_less_iff_less_mult)
  also have "\<dots> \<longleftrightarrow> m \<le> n * c" using assms by auto
  finally show ?thesis .
qed

lemma ceil_dvd:
  fixes m c :: nat
  assumes "0 < c" and "c dvd m"
  shows "(m + c - 1) div c = m div c"
proof -
  from assms(2) obtain q where m: "m = q * c" by (metis dvd_div_mult_self)
  have "m + c - 1 = (c - 1) + q * c" using assms(1) by (simp add: m)
  then have "(m + c - 1) div c = q + (c - 1) div c"
    using assms(1) by (simp only: div_mult_self1) 
  then show ?thesis using assms(1) by (simp add: m)
qed

lemma ceil_not_dvd:
  fixes m c :: nat
  assumes "0 < c" and "\<not> c dvd m"
  shows "(m + c - 1) div c = m div c + 1"
proof -
  have r: "0 < m mod c" using assms(2) by (simp add: dvd_eq_mod_eq_0)
  have "m = m mod c + m div c * c" by simp
  then have "m + c - 1 = m mod c + m div c * c + c - 1" by simp
  also have "\<dots> = (m mod c - 1) + (m div c + 1) * c" using r by simp
  finally have "(m + c - 1) div c = (m div c + 1) + (m mod c - 1) div c"
    using assms(1) by (simp only: div_mult_self1)
  moreover have "m mod c - 1 < c"
    using assms(1) mod_less_divisor [of c m] by linarith
  ultimately show ?thesis by simp
qed

lemma abort_bound:
  fixes k m c :: nat
  assumes "0 < c"
  shows "\<not> (k div c < m div c + 1) \<longleftrightarrow> (m div c + 1) * c \<le> k"
  using assms by (simp add: less_eq_div_iff_mult_less_eq not_less)

lemma max_below_bound:
  fixes m c :: nat
  assumes "0 < c"
  shows "m < (m div c + 1) * c"
  using assms dividend_less_div_times [of c m] by (simp add: add.commute)

section \<open>One call of \<^verbatim>\<open>set\<close> and of \<^verbatim>\<open>get\<close>\<close>

lemma array_ok_nth:
  "array_ok p a \<Longrightarrow> n < length (chunks a) \<Longrightarrow> chunks a ! n = Some c \<Longrightarrow> chunk_ok p c"
  by (auto simp: array_ok_def list_all_length split: option.splits)

text \<open>
  What \<^verbatim>\<open>set\<close> returns on an object in a good state: the table with the key's entry
  replaced, one allocation more where the entry was null and is not any longer, one
  deallocation more where there was a chunk and the entry is null now.
\<close>

lemma set_value_result:
  fixes v
  assumes ok: "args_ok p" and nd: "\<not> to_bool p (value_default p)"
    and inv: "array_ok p a" and cfk: "chunk_for_key p (to_key_t key) = Inr cid"
  defines "e \<equiv> set_entry p
     ((chunk_contents p a (unat cid))[unat (index_for_key p (to_key_t key)) := v])"
  shows "\<exists>a'. set_value p a key v = Inr a' \<and> chunks a' = (chunks a)[unat cid := e] \<and>
     allocations a' =
       allocations a + (if chunks a ! unat cid = None \<and> e \<noteq> None then 1 else 0) \<and>
     deallocations a' =
       deallocations a + (if chunks a ! unat cid \<noteq> None \<and> e = None then 1 else 0)"
proof -
  let ?n = "unat cid" and ?i = "unat (index_for_key p (to_key_t key))"
  have n: "?n < length (chunks a)"
    using chunk_for_key_less [OF cfk, THEN conjunct2] inv by (simp add: array_ok_def)
  have i: "?i < unat (chunk_size p)"
    using ok by (simp add: args_ok_def index_for_key_less)
  have small: "unat (chunk_size p) < 2 ^ 64"
    using unsigned_less [of "chunk_size p"] by simp
  show ?thesis
  proof (cases "chunks a ! ?n")
    case None
    have same: "(chunks a)[?n := None] = chunks a"
      using None list_update_id [of "chunks a" ?n] by simp
    show ?thesis
      unfolding e_def using None cfk nd i same
      by (simp add: set_value_def chunk_contents_def set_entry_def chunk_t_new_def
          filter_replicate_default Let_def)
  next
    case (Some c)
    obtain k xs where ceq: "c = \<lparr>count = k, values' = xs\<rparr>"
      by (cases c) simp
    have "chunk_ok p c" using array_ok_nth [OF inv n Some] .
    then have len: "length xs = unat (chunk_size p)"
      and cnt: "unat k = length (filter (to_bool p) xs)"
      by (simp_all add: chunk_ok_def ceq)
    have il: "?i < length xs" using i len by simp
    have l64: "length (xs[?i := v]) < 2 ^ 64" using len small by simp
    define k' where "k' =
      (if to_bool p v then (if to_bool p (xs ! ?i) then k - 1 else k) + 1
       else (if to_bool p (xs ! ?i) then k - 1 else k))"
    have run: "set_value p a key v =
        (if k' = 0
         then Inr (a\<lparr>chunks := (chunks a)[?n := None], deallocations := deallocations a + 1\<rparr>)
         else Inr (a\<lparr>chunks := (chunks a)[?n := Some \<lparr>count = k', values' = xs[?i := v]\<rparr>]\<rparr>))"
      unfolding k'_def using Some cfk by (simp add: set_value_def Let_def ceq)
    have k': "k' = of_nat (length (filter (to_bool p) (xs[?i := v])))"
      unfolding k'_def using cnt il by (rule count_update)
    have zero: "k' = 0 \<longleftrightarrow> filter (to_bool p) (xs[?i := v]) = []"
      unfolding k' using l64 by (rule of_nat_length_eq_0)
    have cont: "chunk_contents p a ?n = xs"
      using Some by (simp add: chunk_contents_def ceq)
    show ?thesis
      unfolding run e_def cont set_entry_def using zero k' Some by simp
  qed
qed

lemma chunk_contents_length:
  "array_ok p a \<Longrightarrow> n < length (chunks a) \<Longrightarrow> length (chunk_contents p a n) = unat (chunk_size p)"
  using array_ok_nth [of p a n]
  by (auto simp: chunk_contents_def chunk_ok_def split: option.splits)

lemma chunk_contents_update:
  assumes "n < length (chunks a)" and "chunks a' = (chunks a)[n := e]"
  shows "chunk_contents p a' m =
     (if m = n then (case e of None \<Rightarrow> replicate (unat (chunk_size p)) (value_default p)
                      | Some c \<Rightarrow> values' c)
      else chunk_contents p a m)"
  using assms by (simp add: chunk_contents_def)

lemma set_entry_contents:
  assumes "value_contract p" and "length xs = unat (chunk_size p)"
  shows "(case set_entry p xs of None \<Rightarrow> replicate (unat (chunk_size p)) (value_default p)
          | Some c \<Rightarrow> values' c) = xs"
  using all_default [OF assms(1), of xs] assms(2) by (simp add: set_entry_def)

lemma set_entry_ok:
  assumes "length xs = unat (chunk_size p)" and "set_entry p xs = Some c"
  shows "chunk_ok p c"
proof -
  have "length (filter (to_bool p) xs) \<le> unat (chunk_size p)"
    using assms(1) length_filter_le [of "to_bool p" xs] by simp
  then have u: "unat (of_nat (length (filter (to_bool p) xs)) :: size_t) = length (filter (to_bool p) xs)"
    by (rule le_unat_uoi)
  from assms(2) have ne: "filter (to_bool p) xs \<noteq> []"
    and c: "c = \<lparr>count = of_nat (length (filter (to_bool p) xs)), values' = xs\<rparr>"
    by (auto simp: set_entry_def split: if_splits)
  have "count c \<noteq> 0"
    using u ne unfolding c by (metis chunk_t.select_convs(1) length_0_conv unat_eq_zero)
  then show ?thesis using u assms(1) by (simp add: chunk_ok_def c)
qed

lemma array_ok_update:
  assumes "array_ok p a" and "n < length (chunks a)"
    and "\<And>c. e = Some c \<Longrightarrow> chunk_ok p c"
    and "chunks a' = (chunks a)[n := e]"
  shows "array_ok p a'"
  using assms
  by (auto simp: array_ok_def list_all_length nth_list_update split: option.splits)

text \<open>What a call of \<^verbatim>\<open>set\<close> does to an object in a good state.\<close>

lemma set_value_returns:
  assumes "args_ok p" and "value_contract p"
    and "array_ok p a" and "chunk_for_key p (to_key_t key) = Inr cid"
  shows "\<exists>a'. set_value p a key v = Inr a'"
proof -
  have "\<not> to_bool p (value_default p)" using assms(2) by (simp add: value_contract_def)
  from set_value_result [OF assms(1) this assms(3,4), of v] show ?thesis by blast
qed

lemma set_value_effect:
  fixes v
  assumes ok: "args_ok p" and vc: "value_contract p"
    and inv: "array_ok p a" and cfk: "chunk_for_key p (to_key_t key) = Inr cid"
    and s: "set_value p a key v = Inr a'"
  defines "e \<equiv> set_entry p
     ((chunk_contents p a (unat cid))[unat (index_for_key p (to_key_t key)) := v])"
  shows "array_ok p a'"
    and "length (chunks a') = length (chunks a)"
    and "\<And>m. m \<noteq> unat cid \<Longrightarrow> chunks a' ! m = chunks a ! m"
    and "chunks a' ! unat cid = e"
    and "\<And>m. chunk_contents p a' m =
           (if m = unat cid
            then (chunk_contents p a (unat cid))[unat (index_for_key p (to_key_t key)) := v]
            else chunk_contents p a m)"
    and "allocations a' =
           allocations a + (if chunks a ! unat cid = None \<and> e \<noteq> None then 1 else 0)"
    and "deallocations a' =
           deallocations a + (if chunks a ! unat cid \<noteq> None \<and> e = None then 1 else 0)"
proof -
  let ?n = "unat cid" and ?i = "unat (index_for_key p (to_key_t key))"
  let ?xs = "(chunk_contents p a ?n)[?i := v]"
  have nd: "\<not> to_bool p (value_default p)" using vc by (simp add: value_contract_def)
  have n: "?n < length (chunks a)"
    using chunk_for_key_less [OF cfk, THEN conjunct2] inv by (simp add: array_ok_def)
  have len: "length ?xs = unat (chunk_size p)"
    using chunk_contents_length [OF inv n] by simp
  from set_value_result [OF ok nd inv cfk, of v] s
  have t: "chunks a' = (chunks a)[?n := e]"
    and al: "allocations a' =
           allocations a + (if chunks a ! ?n = None \<and> e \<noteq> None then 1 else 0)"
    and de: "deallocations a' =
           deallocations a + (if chunks a ! ?n \<noteq> None \<and> e = None then 1 else 0)"
    unfolding e_def by simp_all
  show "array_ok p a'"
    using inv n set_entry_ok [OF len] t unfolding e_def by (rule array_ok_update)
  show "length (chunks a') = length (chunks a)" using t by simp
  show "chunks a' ! m = chunks a ! m" if "m \<noteq> ?n" for m using t that by simp
  show "chunks a' ! ?n = e" using t n by simp
  show "chunk_contents p a' m = (if m = ?n then ?xs else chunk_contents p a m)" for m
    unfolding chunk_contents_update [OF n t] e_def set_entry_contents [OF vc len] ..
  show "allocations a' =
      allocations a + (if chunks a ! ?n = None \<and> e \<noteq> None then 1 else 0)" by (rule al)
  show "deallocations a' =
      deallocations a + (if chunks a ! ?n \<noteq> None \<and> e = None then 1 else 0)" by (rule de)
qed

lemma get_result:
  assumes ok: "args_ok p" and inv: "array_ok p a"
    and cfk: "chunk_for_key p (to_key_t key) = Inr cid"
  shows "get p a key =
     Inr (chunk_contents p a (unat cid) ! unat (index_for_key p (to_key_t key)), a)"
proof -
  have "unat (index_for_key p (to_key_t key)) < unat (chunk_size p)"
    using ok by (simp add: args_ok_def index_for_key_less)
  then show ?thesis
    using cfk by (simp add: get_def chunk_contents_def split: option.splits)
qed

text \<open>\<^verbatim>\<open>get\<close> returns the object it was given.\<close>

lemma get_returns_object: "get p a key = Inr (x, a') \<Longrightarrow> a' = a"
  by (auto simp: get_def split: sum.splits option.splits)

text \<open>Two keys with the same \<^verbatim>\<open>key_t\<close> value are one key to every member function.\<close>

lemma get_to_key_t:
  assumes "to_key_t key = to_key_t key'"
  shows "get p a key = get p a key'"
  unfolding get_def assms ..

lemma set_value_to_key_t:
  assumes "to_key_t key = to_key_t key'"
  shows "set_value p a key v = set_value p a key' v"
  unfolding set_value_def assms ..

lemma new_ok: "array_ok p (two_level_array_t_new p)"
  by (simp add: array_ok_def two_level_array_t_new_def list_all_length)

lemma run_sets_ok:
  assumes "args_ok p" and "value_contract p"
  shows "array_ok p a \<Longrightarrow> run_sets p a ops = Inr a' \<Longrightarrow> array_ok p a'"
proof (induction ops arbitrary: a)
  case Nil
  then show ?case by simp
next
  case (Cons op ops)
  obtain key v where op: "op = (key, v)" by (cases op)
  from Cons.prems(2) obtain a1 where s: "set_value p a key v = Inr a1"
    and r: "run_sets p a1 ops = Inr a'"
    by (auto simp: op split: sum.splits)
  from s obtain cid where cfk: "chunk_for_key p (to_key_t key) = Inr cid"
    by (auto simp: set_value_def split: sum.splits)
  have "array_ok p a1"
    using assms Cons.prems(1) cfk s by (rule set_value_effect(1))
  then show ?case using r by (rule Cons.IH)
qed

section \<open>The assertion on the chunk index\<close>

lemma nevershrink_chunk_for_key_eq:
  "nevershrink_chunk_for_key p k = chunk_for_key p k"
  by (simp add: nevershrink_chunk_for_key_def chunk_for_key_def nevershrink_num_chunks_def
      num_chunks_def)

lemma nevershrink_index_for_key_eq:
  "nevershrink_index_for_key p k = index_for_key p k"
  by (simp add: nevershrink_index_for_key_def index_for_key_def)

lemma chunk_for_key_abort:
  assumes "args_ok p"
  shows "(\<exists>e. chunk_for_key p k = Inl e) \<longleftrightarrow>
     (unat (max_size p) div unat (chunk_size p) + 1) * unat (chunk_size p)
       \<le> unat (scast k :: size_t)"
proof -
  let ?key = "scast k :: size_t"
  have c: "0 < unat (chunk_size p)"
    using assms by (simp add: args_ok_def unat_gt_0)
  have "(\<exists>e. chunk_for_key p k = Inl e) \<longleftrightarrow> \<not> ?key div chunk_size p < num_chunks p"
    by (simp add: chunk_for_key_eq)
  also have "\<dots> \<longleftrightarrow>
      \<not> unat ?key div unat (chunk_size p) < unat (max_size p) div unat (chunk_size p) + 1"
    using assms by (simp add: word_less_nat_alt unat_num_chunks unat_div)
  also have "\<dots> \<longleftrightarrow>
      (unat (max_size p) div unat (chunk_size p) + 1) * unat (chunk_size p) \<le> unat ?key"
    using c by (rule abort_bound)
  finally show ?thesis .
qed

lemma get_abort:
  "(\<exists>e. get p a key = Inl e) \<longleftrightarrow> (\<exists>e. chunk_for_key p (to_key_t key) = Inl e)"
  by (auto simp: get_def split: sum.splits option.splits)

lemma set_value_abort:
  "(\<exists>e. set_value p a key v = Inl e) \<longleftrightarrow> (\<exists>e. chunk_for_key p (to_key_t key) = Inl e)"
  by (auto simp: set_value_def Let_def split: sum.splits)

lemma subscript_abort:
  "(\<exists>e. subscript p b key = Inl e) \<longleftrightarrow> (\<exists>e. chunk_for_key p (to_key_t key) = Inl e)"
  by (auto simp: subscript_def Let_def nevershrink_chunk_for_key_eq split: sum.splits option.splits)

section \<open>Reachable states of \<^verbatim>\<open>two_level_array_t\<close>\<close>

lemma reachable_ok:
  assumes "args_ok p" and "value_contract p"
    and "run_sets p (two_level_array_t_new p) ops = Inr a"
  shows "array_ok p a"
  using assms(1,2) new_ok assms(3) by (rule run_sets_ok)

text \<open>\<^verbatim>\<open>set\<close> leaves the slot of every other \<^verbatim>\<open>key_t\<close> value as it was.\<close>

lemma set_value_frame:
  assumes ok: "args_ok p" and vc: "value_contract p" and inv: "array_ok p a"
    and s: "set_value p a key v = Inr a'" and ne: "to_key_t key' \<noteq> to_key_t key"
    and cfk': "chunk_for_key p (to_key_t key') = Inr cid'"
  shows "chunk_contents p a' (unat cid') ! unat (index_for_key p (to_key_t key')) =
         chunk_contents p a (unat cid') ! unat (index_for_key p (to_key_t key'))"
proof -
  from s obtain cid where cfk: "chunk_for_key p (to_key_t key) = Inr cid"
    by (auto simp: set_value_def split: sum.splits)
  note c = set_value_effect(5) [OF ok vc inv cfk s]
  have ne': "(scast (to_key_t key') :: size_t) \<noteq> scast (to_key_t key)"
    using ne scast_key_t_inject by blast
  show ?thesis
  proof (cases "cid' = cid")
    case True
    then have "scast (to_key_t key') div chunk_size p = scast (to_key_t key) div chunk_size p"
      using chunk_for_key_less [OF cfk] chunk_for_key_less [OF cfk'] by simp
    then have "index_for_key p (to_key_t key') \<noteq> index_for_key p (to_key_t key)"
      using ne' word_div_mod_inject unfolding index_for_key_def by blast
    then have "unat (index_for_key p (to_key_t key')) \<noteq> unat (index_for_key p (to_key_t key))"
      by (simp add: word_unat_eq_iff)
    then show ?thesis by (simp add: c True)
  next
    case False
    then have "unat cid' \<noteq> unat cid" by (simp add: word_unat_eq_iff)
    then show ?thesis by (simp add: c)
  qed
qed

lemma run_sets_untouched:
  assumes ok: "args_ok p" and vc: "value_contract p"
    and cfk: "chunk_for_key p (to_key_t key) = Inr cid"
  shows "array_ok p a \<Longrightarrow> run_sets p a ops = Inr a' \<Longrightarrow>
     to_key_t key \<notin> to_key_t ` fst ` set ops \<Longrightarrow>
     chunk_contents p a' (unat cid) ! unat (index_for_key p (to_key_t key)) =
     chunk_contents p a (unat cid) ! unat (index_for_key p (to_key_t key))"
proof (induction ops arbitrary: a)
  case Nil
  then show ?case by simp
next
  case (Cons op ops)
  obtain k v where op: "op = (k, v)" by (cases op)
  from Cons.prems(2) obtain a1 where s: "set_value p a k v = Inr a1"
    and r: "run_sets p a1 ops = Inr a'"
    by (auto simp: op split: sum.splits)
  have ne: "to_key_t key \<noteq> to_key_t k" and rest: "to_key_t key \<notin> to_key_t ` fst ` set ops"
    using Cons.prems(3) by (auto simp: op)
  have inv1: "array_ok p a1"
    using run_sets_ok [OF ok vc Cons.prems(1), of "[op]" a1] s by (simp add: op)
  show ?case
    using Cons.IH [OF inv1 r rest] set_value_frame [OF ok vc Cons.prems(1) s ne cfk]
    by simp
qed

section \<open>Reachable states of \<^verbatim>\<open>two_level_nevershrink_array_t\<close>\<close>

lemma nevershrink_new_ok: "nevershrink_ok p (two_level_nevershrink_array_t_new p)"
  by (simp add: nevershrink_ok_def two_level_nevershrink_array_t_new_def list_all_length)

lemma nevershrink_ok_nth:
  "nevershrink_ok p a \<Longrightarrow> n < length (nevershrink_chunks a) \<Longrightarrow>
     nevershrink_chunks a ! n = Some addr \<Longrightarrow>
     addr < length (chunk_store a) \<and>
     length (nevershrink_values (chunk_store a ! addr)) = unat (chunk_size p)"
  by (auto simp: nevershrink_ok_def list_all_length split: option.splits)

text \<open>What a call of \<^verbatim>\<open>operator[]\<close> returns and leaves behind.\<close>

lemma subscript_effect:
  assumes ok: "args_ok p" and inv: "nevershrink_ok p a"
    and cfk: "chunk_for_key p (to_key_t key) = Inr cid"
  obtains addr a' where
    "subscript p a key = Inr ((addr, unat (index_for_key p (to_key_t key))), a')"
    and "nevershrink_ok p a'"
    and "nevershrink_chunks a' ! unat cid = Some addr"
    and "ref_valid a' (addr, unat (index_for_key p (to_key_t key)))"
    and "length (nevershrink_chunks a') = length (nevershrink_chunks a)"
    and "\<And>n x. nevershrink_chunks a ! n = Some x \<Longrightarrow> nevershrink_chunks a' ! n = Some x"
    and "\<And>r. ref_valid a r \<Longrightarrow> ref_valid a' r"
    and "nevershrink_chunks a ! unat cid \<noteq> None \<Longrightarrow> a' = a"
proof -
  let ?n = "unat cid" and ?i = "unat (index_for_key p (to_key_t key))"
  have n: "?n < length (nevershrink_chunks a)"
    using chunk_for_key_less [OF cfk, THEN conjunct2] inv
    by (simp add: nevershrink_ok_def nevershrink_num_chunks_def num_chunks_def)
  have i: "?i < unat (chunk_size p)"
    using ok by (simp add: args_ok_def index_for_key_less)
  show thesis
  proof (cases "nevershrink_chunks a ! ?n")
    case (Some addr)
    have s: "subscript p a key = Inr ((addr, ?i), a)"
      using cfk Some
      by (simp add: subscript_def nevershrink_chunk_for_key_eq nevershrink_index_for_key_eq)
    have v: "ref_valid a (addr, ?i)"
      using nevershrink_ok_nth [OF inv n Some] i by (simp add: ref_valid_def)
    show thesis using Some by (intro that [OF s inv Some v]) simp_all
  next
    case None
    let ?addr = "length (chunk_store a)"
    let ?a' = "a\<lparr>chunk_store := chunk_store a @ [nevershrink_chunk_t_new p],
                 nevershrink_chunks := (nevershrink_chunks a)[?n := Some ?addr]\<rparr>"
    have s: "subscript p a key = Inr ((?addr, ?i), ?a')"
      using cfk None
      by (simp add: subscript_def nevershrink_chunk_for_key_eq nevershrink_index_for_key_eq Let_def)
    have inv': "nevershrink_ok p ?a'"
      using inv n
      by (auto simp: nevershrink_ok_def list_all_length nth_list_update nth_append
          nevershrink_chunk_t_new_def less_Suc_eq split: option.splits)
    have e: "nevershrink_chunks ?a' ! ?n = Some ?addr" using n by simp
    have v: "ref_valid ?a' (?addr, ?i)"
      using i by (simp add: ref_valid_def nevershrink_chunk_t_new_def)
    have keep: "nevershrink_chunks ?a' ! m = Some x" if "nevershrink_chunks a ! m = Some x" for m x
      using that None by (cases "m = ?n") simp_all
    have valid: "ref_valid ?a' r" if "ref_valid a r" for r
      using that by (auto simp: ref_valid_def nth_append)
    show thesis using None by (intro that [OF s inv' e v _ keep valid]) simp_all
  qed
qed

lemma store_effect:
  assumes inv: "nevershrink_ok p a" and v: "ref_valid a r"
  obtains a' where "store a r x = Some a'" and "nevershrink_ok p a'"
    and "nevershrink_chunks a' = nevershrink_chunks a"
    and "load a' r = Some x"
    and "\<And>r'. ref_valid a r' \<Longrightarrow> ref_valid a' r'"
proof -
  let ?c = "chunk_store a ! fst r"
  let ?a' = "a\<lparr>chunk_store := (chunk_store a)
             [fst r := ?c\<lparr>nevershrink_values := (nevershrink_values ?c)[snd r := x]\<rparr>]\<rparr>"
  have s: "store a r x = Some ?a'" using v by (simp add: store_def)
  have fr: "fst r < length (chunk_store a)" using v by (simp add: ref_valid_def)
  from inv have tl: "length (nevershrink_chunks a) = unat (nevershrink_num_chunks p)"
    and cl: "\<And>n. n < length (chunk_store a) \<Longrightarrow>
              length (nevershrink_values (chunk_store a ! n)) = unat (chunk_size p)"
    and al: "list_all (\<lambda>h. case h of None \<Rightarrow> True | Some addr \<Rightarrow> addr < length (chunk_store a))
              (nevershrink_chunks a)"
    by (simp_all add: nevershrink_ok_def list_all_length)
  have cl': "length (nevershrink_values (chunk_store ?a' ! n)) = unat (chunk_size p)"
    if "n < length (chunk_store ?a')" for n
    using that cl [of n] fr by (cases "n = fst r") simp_all
  have inv': "nevershrink_ok p ?a'"
    unfolding nevershrink_ok_def list_all_length [where xs = "chunk_store ?a'"]
    using tl cl' al by simp
  have valid: "ref_valid ?a' r'" if "ref_valid a r'" for r'
    using that fr by (cases "fst r' = fst r") (simp_all add: ref_valid_def)
  have l: "load ?a' r = Some x"
    using v valid [OF v] by (simp add: load_def) (simp add: ref_valid_def)
  show thesis by (intro that [OF s inv' _ l valid]) simp_all
qed

lemma run_ops_keeps:
  assumes ok: "args_ok p"
  shows "nevershrink_ok p a \<Longrightarrow> run_ops p a ops = Some a' \<Longrightarrow>
     nevershrink_ok p a' \<and>
     (\<forall>n x. nevershrink_chunks a ! n = Some x \<longrightarrow> nevershrink_chunks a' ! n = Some x) \<and>
     (\<forall>r. ref_valid a r \<longrightarrow> ref_valid a' r)"
proof (induction ops arbitrary: a)
  case Nil
  then show ?case by simp
next
  case (Cons op ops)
  show ?case
  proof (cases op)
    case (Subscript key)
    from Cons.prems(2) obtain r a1 where s: "subscript p a key = Inr (r, a1)"
      and run: "run_ops p a1 ops = Some a'"
      by (auto simp: Subscript split: sum.splits)
    from s obtain cid where cfk: "chunk_for_key p (to_key_t key) = Inr cid"
      by (auto simp: subscript_def nevershrink_chunk_for_key_eq split: sum.splits)
    from subscript_effect [OF ok Cons.prems(1) cfk] s
    have inv1: "nevershrink_ok p a1"
      and keep: "\<And>n x. nevershrink_chunks a ! n = Some x \<Longrightarrow> nevershrink_chunks a1 ! n = Some x"
      and valid: "\<And>r. ref_valid a r \<Longrightarrow> ref_valid a1 r"
      by (metis Pair_inject sum.inject(2))+
    from Cons.IH [OF inv1 run] keep valid show ?thesis by blast
  next
    case (Store r x)
    from Cons.prems(2) obtain a1 where s: "store a r x = Some a1"
      and run: "run_ops p a1 ops = Some a'"
      by (auto simp: Store split: option.splits)
    from s have v: "ref_valid a r" by (simp add: store_def split: if_splits)
    from store_effect [OF Cons.prems(1) v, of x] s
    have inv1: "nevershrink_ok p a1"
      and keep: "nevershrink_chunks a1 = nevershrink_chunks a"
      and valid: "\<And>r'. ref_valid a r' \<Longrightarrow> ref_valid a1 r'"
      by (metis option.inject)+
    from Cons.IH [OF inv1 run] keep valid show ?thesis by simp
  qed
qed

lemma nevershrink_reachable_ok:
  assumes "args_ok p"
    and "run_ops p (two_level_nevershrink_array_t_new p) ops = Some a"
  shows "nevershrink_ok p a"
  using run_ops_keeps [OF assms(1) nevershrink_new_ok assms(2)] by simp

section \<open>The example instantiations\<close>

lemma example_args_ok: "args_ok example_args"
  by (simp add: args_ok_def example_args_def)

lemma example_value_contract: "value_contract example_args"
  by (simp add: value_contract_def example_args_def)

lemma example_array_reachable:
  "run_sets example_args (two_level_array_t_new example_args) [(5, 1)] = Inr example_array"
  by code_simp

lemma example_array2_reachable:
  "run_sets example_args (two_level_array_t_new example_args) [(5, 1), (6, 2)] = Inr example_array2"
  by code_simp

lemma example_nevershrink_reachable:
  "run_ops example_args (two_level_nevershrink_array_t_new example_args)
     [Subscript 9, Store (0, 1) 3] = Some example_nevershrink"
  by code_simp

lemma wide_args_ok: "args_ok wide_args"
  by (simp add: args_ok_def wide_args_def)

lemma wide_value_contract: "value_contract wide_args"
  by (simp add: value_contract_def wide_args_def)

section \<open>Keys that pass the assertion\<close>

text \<open>
  The lemmas of this section are about a key for which \<^verbatim>\<open>chunk_for_key\<close> returns, on an
  object that the constructor and a sequence of \<^verbatim>\<open>set\<close> calls produce. By
  \<open>chunk_for_key_in_capacity\<close> these are at least the keys up to \<^verbatim>\<open>max_size\<close> that are
  not above \<^verbatim>\<open>INT_MAX\<close>.
\<close>

lemma set_then_get_served:
  assumes "args_ok p" and "value_contract p"
    and "run_sets p (two_level_array_t_new p) ops = Inr a"
    and cfk: "chunk_for_key p (to_key_t key) = Inr cid"
  shows "\<exists>a'. set_value p a key v = Inr a' \<and> get p a' key = Inr (v, a')"
proof -
  have inv: "array_ok p a" using assms(1-3) by (rule reachable_ok)
  let ?n = "unat cid" and ?i = "unat (index_for_key p (to_key_t key))"
  from set_value_returns [OF assms(1,2) inv cfk]
  obtain a' where s: "set_value p a key v = Inr a'" by blast
  note eff = set_value_effect [OF assms(1,2) inv cfk s]
  have inv': "array_ok p a'" by (rule eff(1))
  have c: "chunk_contents p a' ?n = (chunk_contents p a ?n)[?i := v]"
    by (simp add: eff(5))
  have n: "?n < length (chunks a)"
    using chunk_for_key_less [OF cfk, THEN conjunct2] inv by (simp add: array_ok_def)
  have "?i < length (chunk_contents p a ?n)"
    using assms(1) chunk_contents_length [OF inv n] by (simp add: args_ok_def index_for_key_less)
  then have "chunk_contents p a' ?n ! ?i = v" by (simp add: c)
  then have "get p a' key = Inr (v, a')"
    using get_result [OF assms(1) inv' cfk] by simp
  with s show ?thesis by blast
qed

lemma get_default_iff_served:
  assumes "args_ok p" and "value_contract p"
    and "run_sets p (two_level_array_t_new p) ops = Inr a"
    and cfk: "chunk_for_key p (to_key_t key) = Inr cid"
  shows "unat cid < length (chunks a) \<and>
     (get p a key = Inr (value_default p, a) \<longleftrightarrow>
        chunks a ! unat cid = None \<or>
        (\<exists>c. chunks a ! unat cid = Some c \<and>
             unat (index_for_key p (to_key_t key)) < length (values' c) \<and>
             values' c ! unat (index_for_key p (to_key_t key)) = value_default p))"
proof -
  have inv: "array_ok p a" using assms(1-3) by (rule reachable_ok)
  let ?n = "unat cid" and ?i = "unat (index_for_key p (to_key_t key))"
  have n: "?n < length (chunks a)"
    using chunk_for_key_less [OF cfk, THEN conjunct2] inv by (simp add: array_ok_def)
  have i: "?i < unat (chunk_size p)"
    using assms(1) by (simp add: args_ok_def index_for_key_less)
  have len: "chunks a ! ?n = Some c \<Longrightarrow> ?i < length (values' c)" for c
    using array_ok_nth [OF inv n] i by (simp add: chunk_ok_def)
  have "get p a key = Inr (value_default p, a) \<longleftrightarrow>
        chunks a ! ?n = None \<or>
        (\<exists>c. chunks a ! ?n = Some c \<and> ?i < length (values' c) \<and> values' c ! ?i = value_default p)"
    using len cfk by (auto simp: get_def split: option.splits)
  then show ?thesis using n by blast
qed

text \<open>
  Clearing a key: the chunk goes, with one \<^verbatim>\<open>delete\<close>, exactly when it is there and no
  other slot of it holds a value; no call of \<^verbatim>\<open>new\<close> is made.
\<close>

lemma clear_served:
  assumes "args_ok p" and "value_contract p"
    and "run_sets p (two_level_array_t_new p) ops = Inr a"
    and cfk: "chunk_for_key p (to_key_t key) = Inr cid"
  shows "\<exists>a'. set_value p a key (value_default p) = Inr a' \<and>
     get p a' key = Inr (value_default p, a') \<and>
     (chunks a' ! unat cid = None \<longleftrightarrow>
        (\<forall>c. chunks a ! unat cid = Some c \<longrightarrow>
           (\<forall>j < length (values' c). j \<noteq> unat (index_for_key p (to_key_t key)) \<longrightarrow>
              values' c ! j = value_default p))) \<and>
     allocations a' = allocations a \<and>
     deallocations a' =
       deallocations a +
         (if chunks a ! unat cid \<noteq> None \<and> chunks a' ! unat cid = None then 1 else 0)"
proof -
  have inv: "array_ok p a" using assms(1-3) by (rule reachable_ok)
  let ?n = "unat cid" and ?i = "unat (index_for_key p (to_key_t key))"
  let ?d = "value_default p"
  have tb: "to_bool p x \<longleftrightarrow> x \<noteq> ?d" for x
    using assms(2) by (auto simp: value_contract_def)
  have n: "?n < length (chunks a)"
    using chunk_for_key_less [OF cfk, THEN conjunct2] inv by (simp add: array_ok_def)
  have len: "length (chunk_contents p a ?n) = unat (chunk_size p)"
    using inv n by (rule chunk_contents_length)
  have i: "?i < length (chunk_contents p a ?n)"
    using assms(1) len by (simp add: args_ok_def index_for_key_less)
  from set_value_returns [OF assms(1,2) inv cfk]
  obtain a' where s: "set_value p a key ?d = Inr a'" by blast
  note eff = set_value_effect [OF assms(1,2) inv cfk s]
  show ?thesis
  proof -
    have inv': "array_ok p a'" by (rule eff(1))
    have e: "chunks a' ! ?n = set_entry p ((chunk_contents p a ?n)[?i := ?d])"
      by (rule eff(4))
    have c: "chunk_contents p a' ?n = (chunk_contents p a ?n)[?i := ?d]"
      by (simp add: eff(5))
    note al = eff(6) and de = eff(7)
    have g: "get p a' key = Inr (?d, a')"
      using get_result [OF assms(1) inv' cfk] i by (simp add: c)
    have "chunks a' ! ?n = None \<longleftrightarrow>
        (\<forall>j < length (chunk_contents p a ?n). j \<noteq> ?i \<longrightarrow> chunk_contents p a ?n ! j = ?d)"
    proof -
      have "set_entry p ((chunk_contents p a ?n)[?i := ?d]) = None \<longleftrightarrow>
          (\<forall>x\<in>set ((chunk_contents p a ?n)[?i := ?d]). x = ?d)"
        by (simp add: set_entry_def filter_empty_conv tb)
      then show ?thesis unfolding e all_default_but_one [OF i] .
    qed
    also have "\<dots> \<longleftrightarrow> (\<forall>c. chunks a ! ?n = Some c \<longrightarrow>
        (\<forall>j < length (values' c). j \<noteq> ?i \<longrightarrow> values' c ! j = ?d))"
      by (auto simp: chunk_contents_def split: option.splits)
    finally have rel: "chunks a' ! ?n = None \<longleftrightarrow> (\<forall>c. chunks a ! ?n = Some c \<longrightarrow>
        (\<forall>j < length (values' c). j \<noteq> ?i \<longrightarrow> values' c ! j = ?d))" .
    have none: "set_entry p ((chunk_contents p a ?n)[?i := ?d]) = None"
      if "chunks a ! ?n = None"
      using that rel e by simp
    have al': "allocations a' = allocations a"
    proof (cases "chunks a ! ?n")
      case None
      then show ?thesis using al none by simp
    next
      case (Some c)
      then show ?thesis using al by simp
    qed
    have de': "deallocations a' = deallocations a +
        (if chunks a ! ?n \<noteq> None \<and> chunks a' ! ?n = None then 1 else 0)"
      using de e by simp
    show ?thesis
    proof (intro exI conjI)
      show "set_value p a key ?d = Inr a'" by (rule s)
      show "get p a' key = Inr (?d, a')" by (rule g)
      show "chunks a' ! ?n = None \<longleftrightarrow> (\<forall>c. chunks a ! ?n = Some c \<longrightarrow>
        (\<forall>j < length (values' c). j \<noteq> ?i \<longrightarrow> values' c ! j = ?d))" by (rule rel)
      show "allocations a' = allocations a" by (rule al')
      show "deallocations a' = deallocations a +
        (if chunks a ! ?n \<noteq> None \<and> chunks a' ! ?n = None then 1 else 0)" by (rule de')
    qed
  qed
qed

lemma get_never_set_served:
  assumes "args_ok p" and "value_contract p"
    and "run_sets p (two_level_array_t_new p) ops = Inr a"
    and cfk: "chunk_for_key p (to_key_t key) = Inr cid"
    and "to_key_t key \<notin> to_key_t ` fst ` set ops"
  shows "get p a key = Inr (value_default p, a)"
proof -
  have inv: "array_ok p a" using assms(1-3) by (rule reachable_ok)
  let ?n = "unat cid" and ?i = "unat (index_for_key p (to_key_t key))"
  have i: "?i < unat (chunk_size p)"
    using assms(1) by (simp add: args_ok_def index_for_key_less)
  have n: "?n < unat (num_chunks p)"
    using chunk_for_key_less [OF cfk, THEN conjunct2] .
  have "chunk_contents p (two_level_array_t_new p) ?n ! ?i = value_default p"
    using i n by (simp add: chunk_contents_def two_level_array_t_new_def)
  then have "chunk_contents p a ?n ! ?i = value_default p"
    using run_sets_untouched [OF assms(1,2) cfk new_ok assms(3,5)] by simp
  then show ?thesis
    using get_result [OF assms(1) inv cfk] by simp
qed

lemma set_leaves_other_keys_served:
  assumes "args_ok p" and "value_contract p"
    and "run_sets p (two_level_array_t_new p) ops = Inr a"
    and cfk: "chunk_for_key p (to_key_t key) = Inr cid"
    and cfk': "chunk_for_key p (to_key_t key') = Inr cid'"
    and ne: "to_key_t key' \<noteq> to_key_t key"
  shows "\<exists>a' x. set_value p a key v = Inr a' \<and>
           get p a key' = Inr (x, a) \<and> get p a' key' = Inr (x, a')"
proof -
  have inv: "array_ok p a" using assms(1-3) by (rule reachable_ok)
  from set_value_returns [OF assms(1,2) inv cfk]
  obtain a' where s: "set_value p a key v = Inr a'" by blast
  have inv': "array_ok p a'" using assms(1,2) inv cfk s by (rule set_value_effect(1))
  note fr = set_value_frame [OF assms(1,2) inv s ne cfk']
  show ?thesis
    using s get_result [OF assms(1) inv cfk'] get_result [OF assms(1) inv' cfk'] fr
    by simp
qed

text \<open>
  \<^verbatim>\<open>operator[]\<close> on such a key: the value written through the reference is the value
  read through the reference of the next call, which is the same reference, and the chunk
  and the reference stay.
\<close>

lemma nevershrink_write_then_read_served:
  assumes "args_ok p"
    and "run_ops p (two_level_nevershrink_array_t_new p) ops = Some a"
    and cfk: "chunk_for_key p (to_key_t key) = Inr cid"
  shows "\<exists>r a1 a2 a3.
     subscript p a key = Inr (r, a1) \<and> store a1 r v = Some a2 \<and>
     subscript p a2 key = Inr (r, a2) \<and> load a2 r = Some v \<and>
     nevershrink_chunks a1 ! unat cid = Some (fst r) \<and>
     store a2 r (value_default p) = Some a3 \<and>
     nevershrink_chunks a3 ! unat cid = Some (fst r) \<and>
     (\<forall>ops' a4. run_ops p a1 ops' = Some a4 \<longrightarrow>
        nevershrink_chunks a4 ! unat cid = Some (fst r) \<and> ref_valid a4 r)"
proof -
  have inv: "nevershrink_ok p a" using assms(1,2) by (rule nevershrink_reachable_ok)
  let ?cid = "cid" and ?i = "unat (index_for_key p (to_key_t key))"
  from subscript_effect [OF assms(1) inv cfk]
  obtain addr a1 where s1: "subscript p a key = Inr ((addr, ?i), a1)"
    and inv1: "nevershrink_ok p a1"
    and e1: "nevershrink_chunks a1 ! unat ?cid = Some addr"
    and v1: "ref_valid a1 (addr, ?i)"
    by metis
  let ?r = "(addr, ?i)"
  from store_effect [OF inv1 v1, of v]
  obtain a2 where s2: "store a1 ?r v = Some a2" and inv2: "nevershrink_ok p a2"
    and t2: "nevershrink_chunks a2 = nevershrink_chunks a1"
    and l2: "load a2 ?r = Some v"
    and v2: "ref_valid a2 ?r"
    using v1 by metis
  have e2: "nevershrink_chunks a2 ! unat ?cid = Some addr" using e1 t2 by simp
  have s3: "subscript p a2 key = Inr (?r, a2)"
    using cfk e2
    by (simp add: subscript_def nevershrink_chunk_for_key_eq nevershrink_index_for_key_eq)
  from store_effect [OF inv2 v2, of "value_default p"]
  obtain a3 where s4: "store a2 ?r (value_default p) = Some a3"
    and t3: "nevershrink_chunks a3 = nevershrink_chunks a2"
    by metis
  have later: "nevershrink_chunks a4 ! unat ?cid = Some addr \<and> ref_valid a4 ?r"
    if "run_ops p a1 ops' = Some a4" for ops' a4
    using run_ops_keeps [OF assms(1) inv1 that] e1 v1 by simp
  show ?thesis
  proof (intro exI conjI)
    show "subscript p a key = Inr (?r, a1)" by (rule s1)
    show "store a1 ?r v = Some a2" by (rule s2)
    show "subscript p a2 key = Inr (?r, a2)" by (rule s3)
    show "load a2 ?r = Some v" by (rule l2)
    show "nevershrink_chunks a1 ! unat ?cid = Some (fst ?r)" using e1 by simp
    show "store a2 ?r (value_default p) = Some a3" by (rule s4)
    show "nevershrink_chunks a3 ! unat ?cid = Some (fst ?r)" using e2 t3 by simp
    show "\<forall>ops' a4. run_ops p a1 ops' = Some a4 \<longrightarrow>
        nevershrink_chunks a4 ! unat ?cid = Some (fst ?r) \<and> ref_valid a4 ?r"
      using later by simp
  qed
qed

section \<open>Evaluations on the instantiations\<close>

lemma example_in_capacity:
  "4 < max_size example_args" "5 < max_size example_args" "6 < max_size example_args"
  by (simp_all add: example_args_def)

lemma large_in_capacity: "2147483648 < max_size large_args"
  by (simp add: large_args_def)

lemma wide_in_capacity: "5 < max_size wide_args" "4294967301 < max_size wide_args"
  by (simp_all add: wide_args_def)

lemma wide_same_key_t: "to_key_t 4294967301 = to_key_t 5"
  by code_simp

lemma wide_served: "chunk_for_key wide_args (to_key_t 5) = Inr 0"
  by code_simp

lemma wide_new_reachable:
  "run_sets wide_args (two_level_array_t_new wide_args) [] = Inr (two_level_array_t_new wide_args)"
  by simp

section \<open>The claims about \<^verbatim>\<open>two_level_array_t\<close>\<close>

text \<open>
  C1. For every key within capacity and every value \<open>v\<close>, \<^verbatim>\<open>set(key, v)\<close> returns and a
  following \<^verbatim>\<open>get(key)\<close> returns \<open>v\<close>. The code does so for the keys that pass the
  assertion (\<open>set_then_get_served\<close>), among them every key within capacity up to
  \<^verbatim>\<open>INT_MAX\<close>. It does not for every key within capacity: in the instantiation with
  \<^verbatim>\<open>max_size = 1 << 33\<close> and \<^verbatim>\<open>chunk_size = 1 << 30\<close> the key \<open>2\<^sup>3\<^sup>1\<close> becomes
  \<^verbatim>\<open>INT_MIN\<close> in \<^verbatim>\<open>chunk_for_key\<close>, its chunk index 17179869182 is outside the table of
  nine entries, and \<^verbatim>\<open>set\<close> fails the assertion.
\<close>

theorem set_fails_assertion_within_capacity:
  "2147483648 < max_size large_args \<and>
   set_value large_args (two_level_array_t_new large_args) 2147483648 1 =
     Inl (Rassert_failed 17179869182 9)"
proof -
  have "set_value large_args (two_level_array_t_new large_args) 2147483648 1 =
     Inl (Rassert_failed 17179869182 9)"
    by code_simp
  with large_in_capacity show ?thesis ..
qed

text \<open>
  C2. After any sequence of \<^verbatim>\<open>set\<close> calls and for every key within capacity,
  \<^verbatim>\<open>get(key)\<close> returns \<^verbatim>\<open>value_t()\<close> if and only if the table has no chunk for the key
  or the key's slot in its chunk holds \<^verbatim>\<open>value_t()\<close>. The code does so for the keys that
  pass the assertion (\<open>get_default_iff_served\<close>). It does not for every key within
  capacity: with \<^verbatim>\<open>max_size = 1 << 33\<close> and \<^verbatim>\<open>chunk_size = 1 << 30\<close> the chunk of the key
  \<open>2\<^sup>3\<^sup>1\<close>, entry 2 of the table, is absent in the new object, and \<^verbatim>\<open>get\<close> fails the
  assertion where it should return \<^verbatim>\<open>value_t()\<close>.
\<close>

theorem get_fails_assertion_within_capacity:
  "2147483648 < max_size large_args \<and>
   chunks (two_level_array_t_new large_args) ! unat (2147483648 div chunk_size large_args) = None \<and>
   get large_args (two_level_array_t_new large_args) 2147483648 =
     Inl (Rassert_failed 17179869182 9)"
proof -
  have 1: "chunks (two_level_array_t_new large_args) !
      unat (2147483648 div chunk_size large_args) = None"
    by code_simp
  have 2: "get large_args (two_level_array_t_new large_args) 2147483648 =
     Inl (Rassert_failed 17179869182 9)"
    by code_simp
  from large_in_capacity 1 2 show ?thesis by (intro conjI)
qed

text \<open>
  C3. After any sequence of \<^verbatim>\<open>set\<close> calls, the \<^verbatim>\<open>count\<close> of every chunk in the table
  is the number of its values that convert to \<^verbatim>\<open>true\<close>, which is the number of its
  values other than \<^verbatim>\<open>value_t()\<close>, and no chunk in the table has the count zero.
\<close>

theorem count_invariant:
  assumes "args_ok p" and "value_contract p"
    and "run_sets p (two_level_array_t_new p) ops = Inr a"
    and "Some c \<in> set (chunks a)"
  shows "unat (count c) = length (filter (to_bool p) (values' c)) \<and>
         unat (count c) = length (filter (\<lambda>v. v \<noteq> value_default p) (values' c)) \<and>
         count c \<noteq> 0"
proof -
  have inv: "array_ok p a" using assms(1-3) by (rule reachable_ok)
  from assms(4) obtain n where "n < length (chunks a)" and "chunks a ! n = Some c"
    by (auto simp: in_set_conv_nth)
  with inv have c: "chunk_ok p c" by (rule array_ok_nth)
  have "to_bool p = (\<lambda>v. v \<noteq> value_default p)"
    using assms(2) by (auto simp: value_contract_def)
  then have "filter (to_bool p) (values' c) = filter (\<lambda>v. v \<noteq> value_default p) (values' c)"
    by simp
  then show ?thesis using c by (simp add: chunk_ok_def)
qed

theorem count_invariant_witness:
  "args_ok example_args \<and> value_contract example_args \<and>
   run_sets example_args (two_level_array_t_new example_args) [(5, 1), (6, 2)] = Inr example_array2 \<and>
   Some \<lparr>count = 2, values' = [0, 1, 2, 0]\<rparr> \<in> set (chunks example_array2) \<and>
   unat (count \<lparr>count = 2, values' = [0, 1, 2, 0 :: nat]\<rparr>) =
     length (filter (to_bool example_args) (values' \<lparr>count = 2, values' = [0, 1, 2, 0]\<rparr>)) \<and>
   unat (count \<lparr>count = 2, values' = [0, 1, 2, 0 :: nat]\<rparr>) =
     length (filter (\<lambda>v. v \<noteq> value_default example_args)
       (values' \<lparr>count = 2, values' = [0, 1, 2, 0]\<rparr>)) \<and>
   count \<lparr>count = 2, values' = [0, 1, 2, 0 :: nat]\<rparr> \<noteq> 0"
proof -
  have h: "Some \<lparr>count = 2, values' = [0, 1, 2, 0]\<rparr> \<in> set (chunks example_array2)"
    by (simp add: example_array2_def)
  show ?thesis
    using example_args_ok example_value_contract example_array2_reachable h
      count_invariant [OF example_args_ok example_value_contract example_array2_reachable h]
    by simp
qed



text \<open>
  C5. Clearing the keys of a chunk one by one releases the chunk exactly with the last
  value in it, and \<^verbatim>\<open>get\<close> on a cleared key returns \<^verbatim>\<open>value_t()\<close>. The code does so for
  the keys that pass the assertion (\<open>clear_served\<close>: one \<^verbatim>\<open>delete\<close> exactly when no
  other slot holds a value). It does not for every key within capacity: with
  \<^verbatim>\<open>max_size = 1 << 33\<close> and \<^verbatim>\<open>chunk_size = 1 << 30\<close> neither \<^verbatim>\<open>set(key, 7)\<close> nor
  \<^verbatim>\<open>set(key, value_t())\<close> returns for the key \<open>2\<^sup>3\<^sup>1\<close>, so its chunk is never made and
  never released.
\<close>

theorem clear_fails_assertion_within_capacity:
  "2147483648 < max_size large_args \<and>
   set_value large_args (two_level_array_t_new large_args) 2147483648 7 =
     Inl (Rassert_failed 17179869182 9) \<and>
   set_value large_args (two_level_array_t_new large_args) 2147483648 (value_default large_args) =
     Inl (Rassert_failed 17179869182 9)"
proof -
  have 1: "set_value large_args (two_level_array_t_new large_args) 2147483648 7 =
     Inl (Rassert_failed 17179869182 9)"
    by code_simp
  have 2: "set_value large_args (two_level_array_t_new large_args) 2147483648
      (value_default large_args) = Inl (Rassert_failed 17179869182 9)"
    by code_simp
  from large_in_capacity 1 2 show ?thesis by (intro conjI)
qed

text \<open>
  C9. A key within capacity that no \<^verbatim>\<open>set\<close> call has named reads as \<^verbatim>\<open>value_t()\<close>, and
  \<^verbatim>\<open>get\<close> leaves the object as it was. The second half holds
  (\<open>get_returns_object\<close>), and the first for a key whose \<^verbatim>\<open>key_t\<close> value is that of no key named in a
  \<^verbatim>\<open>set\<close> call (\<open>get_never_set_served\<close>). It does not hold as it stands: with
  \<^verbatim>\<open>max_size = (1 << 32) + 16\<close> and \<^verbatim>\<open>chunk_size = 1 << 16\<close> the keys 5 and
  \<open>2\<^sup>3\<^sup>2 + 5\<close> are both within capacity and have the same \<^verbatim>\<open>key_t\<close> value, so after
  \<^verbatim>\<open>set(4294967301, 1)\<close> alone \<^verbatim>\<open>get(5)\<close> returns 1. With \<^verbatim>\<open>max_size = 16\<close> and
  \<^verbatim>\<open>chunk_size = 4\<close> the same call passes the assertion and has the same effect.
\<close>

theorem get_of_unset_key_returns_value:
  "5 < max_size wide_args \<and> 4294967301 < max_size wide_args \<and>
   5 \<notin> fst ` set [(4294967301 :: size_t, 1 :: nat)] \<and>
   (\<exists>a. run_sets wide_args (two_level_array_t_new wide_args) [(4294967301, 1)] = Inr a \<and>
        get wide_args a 5 = Inr (1, a)) \<and>
   run_sets example_args (two_level_array_t_new example_args) [(4294967301, 1)] =
     Inr example_array \<and>
   get example_args example_array 5 = Inr (1, example_array)"
proof -
  from set_then_get_served [OF wide_args_ok wide_value_contract wide_new_reachable wide_served,
      where v = 1]
  obtain a where s: "set_value wide_args (two_level_array_t_new wide_args) 5 1 = Inr a"
    and g: "get wide_args a 5 = Inr (1, a)"
    by blast
  have "set_value wide_args (two_level_array_t_new wide_args) 4294967301 1 = Inr a"
    using s unfolding set_value_to_key_t [OF wide_same_key_t] .
  then have "run_sets wide_args (two_level_array_t_new wide_args) [(4294967301, 1)] = Inr a"
    by simp
  with g have 1: "\<exists>a. run_sets wide_args (two_level_array_t_new wide_args) [(4294967301, 1)] =
      Inr a \<and> get wide_args a 5 = Inr (1, a)"
    by blast
  have 2: "5 \<notin> fst ` set [(4294967301 :: size_t, 1 :: nat)]" by simp
  have 3: "run_sets example_args (two_level_array_t_new example_args) [(4294967301, 1)] =
     Inr example_array"
    by code_simp
  have 4: "get example_args example_array 5 = Inr (1, example_array)" by code_simp
  from wide_in_capacity 2 1 3 4 show ?thesis by (intro conjI)
qed

text \<open>
  C10. For two different keys within capacity, \<^verbatim>\<open>set\<close> on the one leaves what \<^verbatim>\<open>get\<close>
  returns for the other as it was. The code does so for two keys that pass the assertion
  and differ as \<^verbatim>\<open>key_t\<close> values (\<open>set_leaves_other_keys_served\<close>), in the same chunk or
  not, also when the call deletes the chunk. It does not for every two keys within
  capacity: with \<^verbatim>\<open>max_size = (1 << 32) + 16\<close> and \<^verbatim>\<open>chunk_size = 1 << 16\<close>,
  \<^verbatim>\<open>set(5, 1)\<close> changes what \<^verbatim>\<open>get(4294967301)\<close> returns from 0 to 1.
\<close>

theorem set_changes_other_key:
  "5 < max_size wide_args \<and> 4294967301 < max_size wide_args \<and> (4294967301 :: size_t) \<noteq> 5 \<and>
   get wide_args (two_level_array_t_new wide_args) 4294967301 =
     Inr (0, two_level_array_t_new wide_args) \<and>
   (\<exists>a'. set_value wide_args (two_level_array_t_new wide_args) 5 1 = Inr a' \<and>
         get wide_args a' 4294967301 = Inr (1, a'))"
proof -
  have "to_key_t 5 \<notin> to_key_t ` fst ` set ([] :: (size_t \<times> nat) list)" by simp
  from get_never_set_served [OF wide_args_ok wide_value_contract wide_new_reachable
      wide_served this]
  have "get wide_args (two_level_array_t_new wide_args) 5 =
      Inr (0, two_level_array_t_new wide_args)"
    by (simp add: wide_args_def)
  then have 1: "get wide_args (two_level_array_t_new wide_args) 4294967301 =
      Inr (0, two_level_array_t_new wide_args)"
    unfolding get_to_key_t [OF wide_same_key_t] .
  from set_then_get_served [OF wide_args_ok wide_value_contract wide_new_reachable wide_served,
      where v = 1]
  obtain a' where s: "set_value wide_args (two_level_array_t_new wide_args) 5 1 = Inr a'"
    and g: "get wide_args a' 5 = Inr (1, a')"
    by blast
  have "get wide_args a' 4294967301 = Inr (1, a')"
    using g unfolding get_to_key_t [OF wide_same_key_t] .
  with s have 2: "\<exists>a'. set_value wide_args (two_level_array_t_new wide_args) 5 1 = Inr a' \<and>
      get wide_args a' 4294967301 = Inr (1, a')"
    by blast
  have 3: "(4294967301 :: size_t) \<noteq> 5" by simp
  from wide_in_capacity 3 1 2 show ?thesis by (intro conjI)
qed

section \<open>The claim about \<^verbatim>\<open>two_level_nevershrink_array_t\<close>\<close>

text \<open>
  C8. For every key within capacity, a value written through \<^verbatim>\<open>operator[]\<close> is read
  back through \<^verbatim>\<open>operator[]\<close>, and the chunk of the key, once there, stays for the
  lifetime of the container. The code does so for the keys that pass the assertion
  (\<open>nevershrink_write_then_read_served\<close>). It does not for every key within capacity:
  with \<^verbatim>\<open>max_size = 1 << 33\<close> and \<^verbatim>\<open>chunk_size = 1 << 30\<close>, \<^verbatim>\<open>operator[]\<close> fails the
  assertion for the key \<open>2\<^sup>3\<^sup>1\<close> and returns no reference.
\<close>

theorem subscript_fails_assertion_within_capacity:
  "2147483648 < max_size large_args \<and>
   subscript large_args (two_level_nevershrink_array_t_new large_args) 2147483648 =
     Inl (Rassert_failed 17179869182 9)"
proof -
  have "subscript large_args (two_level_nevershrink_array_t_new large_args) 2147483648 =
     Inl (Rassert_failed 17179869182 9)"
    by code_simp
  with large_in_capacity show ?thesis ..
qed

section \<open>The claims about both classes\<close>

text \<open>
  C6, as the spec has it: an access with a key at or beyond \<^verbatim>\<open>max_size\<close> fails the
  assertion. It does not: with \<^verbatim>\<open>max_size = 16\<close> and \<^verbatim>\<open>chunk_size = 4\<close> the table has
  five entries, and \<^verbatim>\<open>get(16)\<close>, \<^verbatim>\<open>set(17, 1)\<close> and \<^verbatim>\<open>operator[](19)\<close> all return.
\<close>

theorem key_at_max_size_accepted:
  "max_size example_args = 16 \<and>
   get example_args (two_level_array_t_new example_args) 16 =
     Inr (0, two_level_array_t_new example_args) \<and>
   set_value example_args (two_level_array_t_new example_args) 17 1 =
     Inr \<lparr>chunks = [None, None, None, None, Some \<lparr>count = 1, values' = [0, 1, 0, 0]\<rparr>],
          allocations = 1, deallocations = 0\<rparr> \<and>
   subscript example_args (two_level_nevershrink_array_t_new example_args) 19 =
     Inr ((0, 3), \<lparr>chunk_store = [\<lparr>nevershrink_values = [0, 0, 0, 0]\<rparr>],
                   nevershrink_chunks = [None, None, None, None, Some 0]\<rparr>)"
proof -
  have 1: "max_size example_args = 16" by (simp add: example_args_def)
  have 2: "get example_args (two_level_array_t_new example_args) 16 =
     Inr (0, two_level_array_t_new example_args)" by code_simp
  have 3: "set_value example_args (two_level_array_t_new example_args) 17 1 =
     Inr \<lparr>chunks = [None, None, None, None, Some \<lparr>count = 1, values' = [0, 1, 0, 0]\<rparr>],
          allocations = 1, deallocations = 0\<rparr>"
    by code_simp
  have 4: "subscript example_args (two_level_nevershrink_array_t_new example_args) 19 =
     Inr ((0, 3), \<lparr>chunk_store = [\<lparr>nevershrink_values = [0, 0, 0, 0]\<rparr>],
                   nevershrink_chunks = [None, None, None, None, Some 0]\<rparr>)"
    by code_simp
  from 1 2 3 4 show ?thesis by (intro conjI)
qed

text \<open>
  C6, amended. Let \<^verbatim>\<open>chunk_size\<close> be other than 0 and \<^verbatim>\<open>max_size / chunk_size + 1\<close> not
  wrap around to 0. In both classes and for every key up to \<^verbatim>\<open>INT_MAX\<close>, \<^verbatim>\<open>get\<close>,
  \<^verbatim>\<open>set\<close> and \<^verbatim>\<open>operator[]\<close> fail the assertion if and only if the chunk index
  \<^verbatim>\<open>key / chunk_size\<close> is not below \<^verbatim>\<open>num_chunks\<close>, that is if and only if the key is at
  least \<open>(max_size / chunk_size + 1) * chunk_size\<close>. That bound lies above \<^verbatim>\<open>max_size\<close>:
  the keys up to and including \<^verbatim>\<open>max_size\<close> are served, and so are the keys between
  \<^verbatim>\<open>max_size\<close> and the bound. Nothing is said here of the keys above \<^verbatim>\<open>INT_MAX\<close>.
\<close>

theorem abort_iff_chunk_id_outside_table:
  assumes "args_ok p" and "key \<le> INT_MAX"
  shows "((\<exists>e. get p a key = Inl e) \<longleftrightarrow>
            (unat (max_size p) div unat (chunk_size p) + 1) * unat (chunk_size p) \<le> unat key) \<and>
         ((\<exists>e. set_value p a key v = Inl e) \<longleftrightarrow>
            (unat (max_size p) div unat (chunk_size p) + 1) * unat (chunk_size p) \<le> unat key) \<and>
         ((\<exists>e. subscript p b key = Inl e) \<longleftrightarrow>
            (unat (max_size p) div unat (chunk_size p) + 1) * unat (chunk_size p) \<le> unat key) \<and>
         ((\<exists>e. get p a key = Inl e) \<longleftrightarrow> \<not> key div chunk_size p < num_chunks p) \<and>
         unat (max_size p) < (unat (max_size p) div unat (chunk_size p) + 1) * unat (chunk_size p)"
proof -
  have c: "0 < unat (chunk_size p)"
    using assms(1) by (simp add: args_ok_def unat_gt_0)
  have k: "(scast (to_key_t key) :: size_t) = key"
    using assms(2) by (rule scast_to_key_t)
  have idx: "(\<exists>e. chunk_for_key p (to_key_t key) = Inl e) \<longleftrightarrow>
      \<not> key div chunk_size p < num_chunks p"
    by (simp add: chunk_for_key_eq k)
  show ?thesis
    unfolding get_abort set_value_abort subscript_abort
    unfolding idx [symmetric] chunk_for_key_abort [OF assms(1)] k
    using max_below_bound [OF c] by simp
qed

theorem abort_iff_chunk_id_outside_table_witness:
  "args_ok example_args \<and> 20 \<le> INT_MAX \<and>
   ((\<exists>e. get example_args example_array 20 = Inl e) \<longleftrightarrow>
      (unat (max_size example_args) div unat (chunk_size example_args) + 1) *
        unat (chunk_size example_args) \<le> unat (20 :: size_t)) \<and>
   get example_args example_array 20 = Inl (Rassert_failed 5 5)"
proof -
  have h: "get example_args example_array 20 = Inl (Rassert_failed 5 5)" by code_simp
  have i: "20 \<le> INT_MAX" by (simp add: INT_MAX_def)
  show ?thesis
    using example_args_ok h i
      abort_iff_chunk_id_outside_table [OF example_args_ok i, of example_array]
    by (intro conjI) simp_all
qed

text \<open>
  C7, as the spec has it: \<^verbatim>\<open>num_chunks\<close> is \<open>ceil(max_size / chunk_size)\<close>. It is not:
  with \<^verbatim>\<open>max_size = 16\<close> and \<^verbatim>\<open>chunk_size = 4\<close> the table has five entries and the
  ceiling is four.
\<close>

theorem num_chunks_not_ceiling:
  "num_chunks example_args = 5 \<and> nevershrink_num_chunks example_args = 5 \<and>
   spec_num_chunks example_args = 4"
  by (simp add: num_chunks_def nevershrink_num_chunks_def spec_num_chunks_def example_args_def)

text \<open>
  C7, amended. \<^verbatim>\<open>num_chunks\<close> is \<open>floor(max_size / chunk_size) + 1\<close> in both classes:
  the ceiling of the quotient where \<^verbatim>\<open>chunk_size\<close> does not divide \<^verbatim>\<open>max_size\<close>, and one
  more than the ceiling where it does.
\<close>

theorem num_chunks_is_floor_plus_one:
  assumes "args_ok p"
  shows "unat (num_chunks p) = unat (max_size p) div unat (chunk_size p) + 1 \<and>
         unat (nevershrink_num_chunks p) = unat (max_size p) div unat (chunk_size p) + 1 \<and>
         unat (num_chunks p) =
           (if unat (chunk_size p) dvd unat (max_size p) then spec_num_chunks p + 1
            else spec_num_chunks p)"
proof -
  have c: "0 < unat (chunk_size p)"
    using assms by (simp add: args_ok_def unat_gt_0)
  have 1: "unat (num_chunks p) = unat (max_size p) div unat (chunk_size p) + 1"
    using assms by (rule unat_num_chunks)
  have 2: "nevershrink_num_chunks p = num_chunks p"
    by (simp add: nevershrink_num_chunks_def num_chunks_def)
  show ?thesis
    using ceil_dvd [OF c] ceil_not_dvd [OF c] by (simp add: 1 2 spec_num_chunks_def)
qed

theorem num_chunks_is_floor_plus_one_witness:
  "args_ok example_args \<and>
   unat (num_chunks example_args) = unat (max_size example_args) div unat (chunk_size example_args) + 1 \<and>
   unat (num_chunks example_args) = spec_num_chunks example_args + 1"
  using example_args_ok num_chunks_is_floor_plus_one [OF example_args_ok]
  by (simp add: example_args_def)

end
